theory Spec2Isabelle
  imports Main "HOL-Library.Word" "HOL-Library.Sublist"
begin

section \<open>Strings\<close>

text \<open>
  A JavaScript string is a sequence of UTF-16 code units. String literals of the source
  that are plain ASCII are written with \<open>js\<close>; the pictographs of the report texts are
  given by their code units.
\<close>

type_synonym cu = "16 word"
type_synonym jsstring = "cu list"

definition js :: "string \<Rightarrow> jsstring" where
  "js cs = map of_char cs"

text \<open>\<open>s.substring(0, n)\<close> for a non-negative \<open>n\<close>: the first \<open>n\<close> code units, or all of
  \<open>s\<close> when it is shorter.\<close>

definition substring0 :: "nat \<Rightarrow> jsstring \<Rightarrow> jsstring" where
  "substring0 n s = take n s"

text \<open>Decimal rendering of a non-negative integer, as template literals print
  \<open>array.length\<close>.\<close>

function showNat :: "nat \<Rightarrow> jsstring" where
  "showNat n = (if n < 10 then [of_nat (48 + n)] else showNat (n div 10) @ [of_nat (48 + n mod 10)])"
  by pat_completeness auto
termination
  by (relation "measure id") auto

declare showNat.simps [simp del]

section \<open>Regular expressions\<close>

text \<open>
  The fragment of the regular-expression language that the eight patterns of
  \<open>analyzeFileForCompliance\<close> are written in: literal text, character classes and their
  negation, \<open>\s\<close>, \<open>\b\<close>, sequence, alternation, \<open>?\<close>, \<open>*\<close> and (as \<open>rPlus\<close>) \<open>+\<close>.
\<close>

datatype re =
    Str jsstring
  | OneOf jsstring
  | NoneOf jsstring
  | Space
  | WordB
  | Seq re re
  | Alt re re
  | Opt re
  | Star re

definition rPlus :: "re \<Rightarrow> re" where
  "rPlus r = Seq r (Star r)"

text \<open>
  Canonicalisation under the \<open>i\<close> flag (without the \<open>u\<close> flag) compares the upper-case
  forms of single code units. Lower-case ASCII letters go to their upper-case letters.
  A code unit from 128 on goes to a code unit from 128 on, whatever the Unicode tables say,
  and no other ASCII code unit changes; every code unit that occurs in a pattern below is
  ASCII, so for the comparisons made here it is enough to leave all other code units
  as they are.
\<close>

definition canon :: "bool \<Rightarrow> cu \<Rightarrow> cu" where
  "canon ic c = (if ic \<and> 0x61 \<le> c \<and> c \<le> 0x7A then c - 0x20 else c)"

definition isSpace :: "cu \<Rightarrow> bool" where
  "isSpace c \<longleftrightarrow>
     c = 0x09 \<or> c = 0x0A \<or> c = 0x0B \<or> c = 0x0C \<or> c = 0x0D \<or> c = 0x20 \<or> c = 0xA0 \<or>
     c = 0x1680 \<or> (0x2000 \<le> c \<and> c \<le> 0x200A) \<or> c = 0x2028 \<or> c = 0x2029 \<or>
     c = 0x202F \<or> c = 0x205F \<or> c = 0x3000 \<or> c = 0xFEFF"

definition isWordChar :: "cu \<Rightarrow> bool" where
  "isWordChar c \<longleftrightarrow>
     (0x61 \<le> c \<and> c \<le> 0x7A) \<or> (0x41 \<le> c \<and> c \<le> 0x5A) \<or> (0x30 \<le> c \<and> c \<le> 0x39) \<or> c = 0x5F"

text \<open>\<open>wordAt s i\<close>: is there a word character at index \<open>i\<close> (an \<open>int\<close>, since \<open>\b\<close> looks
  at index \<open>-1\<close> at the start of the input)?\<close>

definition wordAt :: "jsstring \<Rightarrow> int \<Rightarrow> bool" where
  "wordAt s e = (if e < 0 \<or> int (length s) \<le> e then False else isWordChar (s ! nat e))"

text \<open>\<open>strAt ic cs s\<close>: does \<open>s\<close> start with the literal text \<open>cs\<close>, code unit by code
  unit, up to canonicalisation?\<close>

fun strAt :: "bool \<Rightarrow> jsstring \<Rightarrow> jsstring \<Rightarrow> bool" where
  "strAt ic [] s = True"
| "strAt ic (c # cs) [] = False"
| "strAt ic (c # cs) (d # ds) = (if canon ic d = canon ic c then strAt ic cs ds else False)"

text \<open>
  \<open>rmatch ic r s i\<close> lists the indices at which a match of \<open>r\<close> that starts at index \<open>i\<close>
  of \<open>s\<close> can end. An iteration of \<open>*\<close> that matches the empty string is rejected, as the
  language's RepeatMatcher does.
\<close>

function rmatch :: "bool \<Rightarrow> re \<Rightarrow> jsstring \<Rightarrow> nat \<Rightarrow> nat list" where
  "rmatch ic (Str cs) s i =
     (if i \<le> length s \<and> strAt ic cs (drop i s) then [i + length cs] else [])"
| "rmatch ic (OneOf cs) s i =
     (if i < length s \<and> canon ic (s ! i) \<in> set (map (canon ic) cs) then [Suc i] else [])"
| "rmatch ic (NoneOf cs) s i =
     (if i < length s \<and> canon ic (s ! i) \<notin> set (map (canon ic) cs) then [Suc i] else [])"
| "rmatch ic Space s i = (if i < length s \<and> isSpace (s ! i) then [Suc i] else [])"
| "rmatch ic WordB s i = (if wordAt s (int i - 1) \<noteq> wordAt s (int i) then [i] else [])"
| "rmatch ic (Seq a b) s i = concat (map (rmatch ic b s) (rmatch ic a s i))"
| "rmatch ic (Alt a b) s i = rmatch ic a s i @ rmatch ic b s i"
| "rmatch ic (Opt a) s i = rmatch ic a s i @ [i]"
| "rmatch ic (Star a) s i =
     concat (map (rmatch ic (Star a) s) (filter (\<lambda>j. i < j \<and> j \<le> length s) (rmatch ic a s i))) @ [i]"
  by pat_completeness auto
termination
  by (relation "measures [\<lambda>(ic, r, s, i). size r, \<lambda>(ic, r, s, i). length s - i]") auto

text \<open>\<open>pattern.test(s)\<close> for a pattern without the \<open>g\<close> and \<open>y\<close> flags: is there a match
  starting at some index of \<open>s\<close>?\<close>

definition regexTest :: "bool \<Rightarrow> re \<Rightarrow> jsstring \<Rightarrow> bool" where
  "regexTest ic r s = list_ex (\<lambda>i. rmatch ic r s i \<noteq> []) [0..<Suc (length s)]"

text \<open>A regular-expression literal: its pattern and whether it carries the \<open>i\<close> flag.\<close>

datatype regex = Regex re bool

fun test :: "regex \<Rightarrow> jsstring \<Rightarrow> bool" where
  "test (Regex r ic) s = regexTest ic r s"

section \<open>Data model\<close>

datatype Severity = High | Medium | Low

fun severityStr :: "Severity \<Rightarrow> jsstring" where
  "severityStr High = js ''high''"
| "severityStr Medium = js ''medium''"
| "severityStr Low = js ''low''"

record ComplianceViolation =
  "file" :: jsstring
  issue :: jsstring
  severity :: Severity

record ComplianceReport =
  violations :: "ComplianceViolation list"
  passed :: bool
  summary :: jsstring

section \<open>analyzeFileForCompliance\<close>

text \<open>The shared tail \<open>\s*=\s*['"][^'"]+['"]\<close> of the first three patterns; \<open>0x27\<close> is
  the apostrophe and \<open>0x22\<close> the double quote.\<close>

definition quotes :: jsstring where
  "quotes = [0x27, 0x22]"

definition assignedLiteral :: re where
  "assignedLiteral =
     Seq (Star Space) (Seq (Str (js ''='')) (Seq (Star Space)
       (Seq (OneOf quotes) (Seq (rPlus (NoneOf quotes)) (OneOf quotes)))))"

definition passwordPattern :: regex where
  "passwordPattern =
     Regex (Seq (Alt (Str (js ''password'')) (Alt (Str (js ''passwd'')) (Str (js ''pwd''))))
                assignedLiteral) True"

definition apiKeyPattern :: regex where
  "apiKeyPattern =
     Regex (Seq (Alt (Seq (Str (js ''api'')) (Seq (Opt (OneOf (js ''_-''))) (Str (js ''key''))))
                     (Str (js ''apikey'')))
                assignedLiteral) True"

definition secretTokenPattern :: regex where
  "secretTokenPattern =
     Regex (Seq (Alt (Str (js ''secret'')) (Str (js ''token''))) assignedLiteral) True"

definition awsPattern :: regex where
  "awsPattern =
     Regex (Alt (Str (js ''aws_access_key_id'')) (Str (js ''aws_secret_access_key''))) True"

definition consolePattern :: regex where
  "consolePattern =
     Regex (Seq (Str (js ''console.''))
                (Alt (Str (js ''log'')) (Alt (Str (js ''debug'')) (Alt (Str (js ''info''))
                  (Alt (Str (js ''warn'')) (Str (js ''error''))))))) False"

definition todoPattern :: regex where
  "todoPattern =
     Regex (Seq (Alt (Str (js ''TODO'')) (Alt (Str (js ''FIXME'')) (Alt (Str (js ''HACK''))
                  (Str (js ''XXX'')))))
                (Opt (Str (js '':'')))) True"

definition lintPattern :: regex where
  "lintPattern =
     Regex (Alt (Str (js ''eslint-disable'')) (Alt (Str (js ''@ts-ignore''))
              (Str (js ''@ts-nocheck'')))) False"

definition evalPattern :: regex where
  "evalPattern =
     Regex (Seq WordB (Seq (Str (js ''eval'')) (Seq (Star Space) (Str (js ''(''))))) False"

definition issuePassword :: jsstring where
  "issuePassword = js ''Hardcoded password detected''"

definition issueApiKey :: jsstring where
  "issueApiKey = js ''Hardcoded API key detected''"

definition issueSecretToken :: jsstring where
  "issueSecretToken = js ''Hardcoded secret/token detected''"

definition issueAws :: jsstring where
  "issueAws = js ''AWS credentials detected''"

definition issueConsole :: jsstring where
  "issueConsole = js ''Console statements detected - use proper logging framework''"

definition issueTodo :: jsstring where
  "issueTodo = js ''TODO/FIXME comments detected - should be tracked as issues''"

definition issueLint :: jsstring where
  "issueLint = js ''Linting rules disabled - fix the underlying issue instead''"

definition issueEval :: jsstring where
  "issueEval = js ''Unsafe eval() usage detected''"

definition secretPatterns :: "(regex \<times> jsstring) list" where
  "secretPatterns =
     [(passwordPattern, issuePassword), (apiKeyPattern, issueApiKey),
      (secretTokenPattern, issueSecretToken), (awsPattern, issueAws)]"

text \<open>\<open>violations.push(v)\<close> on the local array is \<open>vs @ [v]\<close>; the \<open>for ... of\<close> loop over
  \<open>secretPatterns\<close> is a left fold that threads the array.\<close>

definition analyzeFileForCompliance :: "jsstring \<Rightarrow> jsstring \<Rightarrow> ComplianceViolation list" where
  "analyzeFileForCompliance filename patch =
     (let vs0 = foldl (\<lambda>vs (pattern, iss).
                  if test pattern patch
                  then vs @ [\<lparr>file = filename, issue = iss, severity = High\<rparr>] else vs)
                [] secretPatterns;
          vs1 = (if test consolePattern patch
                 then vs0 @ [\<lparr>file = filename, issue = issueConsole, severity = Low\<rparr>] else vs0);
          vs2 = (if test todoPattern patch
                 then vs1 @ [\<lparr>file = filename, issue = issueTodo, severity = Low\<rparr>] else vs1);
          vs3 = (if test lintPattern patch
                 then vs2 @ [\<lparr>file = filename, issue = issueLint, severity = Medium\<rparr>] else vs2);
          vs4 = (if test evalPattern patch
                 then vs3 @ [\<lparr>file = filename, issue = issueEval, severity = High\<rparr>] else vs3)
      in vs4)"

section \<open>generateComplianceReport\<close>

definition nl :: jsstring where
  "nl = [0x0A]"

text \<open>\<open>0x2705\<close> is the check-mark pictograph, \<open>0x274C\<close> the cross mark.\<close>

definition successLine :: jsstring where
  "successLine = [0x2705] @ js '' All compliance checks passed!''"

definition generateComplianceReport :: "ComplianceViolation list \<Rightarrow> ComplianceReport" where
  "generateComplianceReport vs =
     (let passed' = (length vs = 0);
          highSeverity = filter (\<lambda>v. severity v = High) vs;
          mediumSeverity = filter (\<lambda>v. severity v = Medium) vs;
          lowSeverity = filter (\<lambda>v. severity v = Low) vs;
          summary' =
            (if passed' then successLine
             else [0x274C] @ js '' Found '' @ showNat (length vs) @
                    js '' compliance violation(s):'' @ nl @
                  js ''- '' @ showNat (length highSeverity) @ js '' high severity'' @ nl @
                  js ''- '' @ showNat (length mediumSeverity) @ js '' medium severity'' @ nl @
                  js ''- '' @ showNat (length lowSeverity) @ js '' low severity'')
      in \<lparr>violations = vs, passed = passed', summary = summary'\<rparr>)"

section \<open>Plain objects used as dictionaries\<close>

text \<open>
  \<open>groupedByFile\<close> is an object literal \<open>{}\<close> indexed by file path. Such an object has
  its own properties, kept in creation order, and inherits the members of
  \<open>Object.prototype\<close>: reading a key that is not an own property finds the inherited
  member of that name, if there is one, and \<open>undefined\<close> otherwise. The inherited members
  are functions (for \<open>__proto__\<close>, the prototype object): all truthy, none with a
  \<open>push\<close> method.
\<close>

datatype jserror = TypeError

type_synonym 'v jsobject = "(jsstring \<times> 'v) list"

definition objectPrototypeKeys :: "jsstring list" where
  "objectPrototypeKeys =
     [js ''constructor'', js ''__defineGetter__'', js ''__defineSetter__'',
      js ''hasOwnProperty'', js ''__lookupGetter__'', js ''__lookupSetter__'',
      js ''isPrototypeOf'', js ''propertyIsEnumerable'', js ''toString'', js ''valueOf'',
      js ''__proto__'', js ''toLocaleString'']"

datatype 'v property = Own 'v | Inherited | Undefined

definition getProp :: "'v jsobject \<Rightarrow> jsstring \<Rightarrow> 'v property" where
  "getProp obj k =
     (case map_of obj k of
        Some v \<Rightarrow> Own v
      | None \<Rightarrow> if k \<in> set objectPrototypeKeys then Inherited else Undefined)"

text \<open>Replacing the value of an own property keeps its place in the creation order.\<close>

definition updateOwn :: "'v jsobject \<Rightarrow> jsstring \<Rightarrow> 'v \<Rightarrow> 'v jsobject" where
  "updateOwn obj k v = map (\<lambda>(k', v'). if k' = k then (k', v) else (k', v')) obj"

text \<open>
  An array index is a key that is the canonical decimal form of an integer from 0 to
  \<open>2^32 - 2\<close>. \<open>Object.entries\<close> lists the own properties whose keys are array indices
  first, by ascending index, and then all other own properties in creation order.
\<close>

definition isDigit :: "cu \<Rightarrow> bool" where
  "isDigit c \<longleftrightarrow> 0x30 \<le> c \<and> c \<le> 0x39"

definition digitsValue :: "jsstring \<Rightarrow> int" where
  "digitsValue k = foldl (\<lambda>n c. 10 * n + uint (c - 0x30)) 0 k"

definition arrayIndex :: "jsstring \<Rightarrow> int option" where
  "arrayIndex k =
     (if k \<noteq> [] \<and> list_all isDigit k \<and> (k = [0x30] \<or> hd k \<noteq> 0x30) \<and>
         digitsValue k < 4294967295
      then Some (digitsValue k) else None)"

definition indexKey :: "jsstring \<times> 'v \<Rightarrow> int" where
  "indexKey e = (case arrayIndex (fst e) of Some n \<Rightarrow> n | None \<Rightarrow> 0)"

definition objectEntries :: "'v jsobject \<Rightarrow> (jsstring \<times> 'v) list" where
  "objectEntries obj =
     sort_key indexKey (filter (\<lambda>e. arrayIndex (fst e) \<noteq> None) obj) @
     filter (\<lambda>e. arrayIndex (fst e) = None) obj"

section \<open>formatComplianceReport\<close>

text \<open>
  One turn of the grouping loop. \<open>!groupedByFile[f]\<close> holds only when the key is neither
  an own property (an array, which is truthy even when empty) nor an inherited member;
  then an empty array is stored under the key. \<open>groupedByFile[f].push(v)\<close> appends to the
  array when the key is an own property and throws a TypeError when the lookup gives an
  inherited member, which has no \<open>push\<close>.
\<close>

definition groupStep ::
  "ComplianceViolation list jsobject \<Rightarrow> ComplianceViolation \<Rightarrow>
   jserror + ComplianceViolation list jsobject" where
  "groupStep obj v =
     (let obj1 = (case getProp obj (file v) of
                    Undefined \<Rightarrow> obj @ [(file v, [])]
                  | _ \<Rightarrow> obj)
      in case getProp obj1 (file v) of
           Own arr \<Rightarrow> Inr (updateOwn obj1 (file v) (arr @ [v]))
         | _ \<Rightarrow> Inl TypeError)"

fun groupLoop ::
  "ComplianceViolation list jsobject \<Rightarrow> ComplianceViolation list \<Rightarrow>
   jserror + ComplianceViolation list jsobject" where
  "groupLoop obj [] = Inr obj"
| "groupLoop obj (v # vs) =
     (case groupStep obj v of Inl e \<Rightarrow> Inl e | Inr obj' \<Rightarrow> groupLoop obj' vs)"

text \<open>The severity glyphs: red, yellow and blue circles, each a surrogate pair.\<close>

fun emoji :: "Severity \<Rightarrow> jsstring" where
  "emoji High = [0xD83D, 0xDD34]"
| "emoji Medium = [0xD83D, 0xDFE1]"
| "emoji Low = [0xD83D, 0xDD35]"

text \<open>\<open>toUpperCase\<close> is only ever applied to one of the three severity names, which are
  lower-case ASCII letters; on those it is the ASCII upper-casing.\<close>

definition toUpperCase :: "jsstring \<Rightarrow> jsstring" where
  "toUpperCase s = map (canon True) s"

definition violationLine :: "ComplianceViolation \<Rightarrow> jsstring" where
  "violationLine v =
     js ''- '' @ emoji (severity v) @ js '' **'' @ toUpperCase (severityStr (severity v)) @
     js ''**: '' @ issue v @ nl"

text \<open>The body of the loop over \<open>Object.entries(groupedByFile)\<close>; \<open>0xD83D, 0xDCC4\<close> is
  the page pictograph.\<close>

definition fileSection :: "jsstring \<Rightarrow> jsstring \<times> ComplianceViolation list \<Rightarrow> jsstring" where
  "fileSection markdown e =
     (let markdown1 = markdown @ js ''#### '' @ [0xD83D, 0xDCC4] @ js '' `'' @ fst e @ js ''`'' @ nl @ nl;
          markdown2 = foldl (\<lambda>md v. md @ violationLine v) markdown1 (snd e)
      in markdown2 @ nl)"

definition violationsHeading :: jsstring where
  "violationsHeading = js ''### Violations:'' @ nl @ nl"

text \<open>\<open>0x26A0, 0xFE0F\<close> is the warning sign with its variation selector.\<close>

definition closingAdvice :: jsstring where
  "closingAdvice =
     [0x26A0, 0xFE0F] @
     js '' Please address these violations before merging to maintain compliance standards.''"

text \<open>The part of the document that is written whatever the report says: title line,
  metadata block, separator and summary.\<close>

definition reportHead :: "ComplianceReport \<Rightarrow> jsstring \<Rightarrow> jsstring \<Rightarrow> jsstring \<Rightarrow> jsstring" where
  "reportHead report commitSha commitMessage author =
     (let markdown0 = js ''## '' @ [0xD83D, 0xDD0D] @ js '' Compliance Report'' @ nl @ nl;
          markdown1 = markdown0 @ js ''**Commit:** '' @ substring0 7 commitSha @ nl;
          markdown2 = markdown1 @ js ''**Author:** '' @ author @ nl;
          markdown3 = markdown2 @ js ''**Message:** '' @ commitMessage @ nl @ nl;
          markdown4 = markdown3 @ js ''---'' @ nl @ nl;
          markdown5 = markdown4 @ summary report @ nl @ nl
      in markdown5)"

definition formatComplianceReport ::
  "ComplianceReport \<Rightarrow> jsstring \<Rightarrow> jsstring \<Rightarrow> jsstring \<Rightarrow> jserror + jsstring" where
  "formatComplianceReport report commitSha commitMessage author =
     (let markdown5 = reportHead report commitSha commitMessage author
      in if \<not> passed report then
           (let markdown6 = markdown5 @ violationsHeading
            in case groupLoop [] (violations report) of
                 Inl e \<Rightarrow> Inl e
               | Inr groupedByFile \<Rightarrow>
                   (let markdown7 = foldl fileSection markdown6 (objectEntries groupedByFile);
                        markdown8 = markdown7 @ nl @ js ''---'' @ nl @ nl
                    in Inr (markdown8 @ closingAdvice)))
         else Inr markdown5)"

section \<open>The push handler\<close>

record Commit =
  commitId :: jsstring
  commitMessage :: jsstring
  authorName :: jsstring

record FileChange =
  fileName :: jsstring
  filePatch :: "jsstring option"

record PushPayload =
  ref :: jsstring
  commits :: "Commit list"
  ownerName :: "jsstring option"
  ownerLogin :: jsstring
  repoName :: jsstring

text \<open>
  The remote call \<open>repos.getCommit\<close>, given owner, repository and commit id, either throws
  or returns the commit's data, whose \<open>files\<close> member may be absent.
\<close>

type_synonym getCommit = "jsstring \<Rightarrow> jsstring \<Rightarrow> jsstring \<Rightarrow> jserror + FileChange list option"

record IssueRequest =
  owner :: jsstring
  repo :: jsstring
  title :: jsstring
  body :: jsstring
  labels :: "jsstring list"

datatype outcome = Skipped | Rejected jserror | IssueCreated IssueRequest

text \<open>\<open>s.replace(pat, rep)\<close> with a string pattern: the first occurrence of \<open>pat\<close> in \<open>s\<close>,
  wherever it is, is replaced.\<close>

fun replaceFirst :: "jsstring \<Rightarrow> jsstring \<Rightarrow> jsstring \<Rightarrow> jsstring" where
  "replaceFirst pat rep [] = (if pat = [] then rep else [])"
| "replaceFirst pat rep (c # cs) =
     (if prefix pat (c # cs) then rep @ drop (length pat) (c # cs)
      else c # replaceFirst pat rep cs)"

text \<open>\<open>a || b\<close> on an optional string: \<open>b\<close> when \<open>a\<close> is absent or empty.\<close>

definition ownerOf :: "PushPayload \<Rightarrow> jsstring" where
  "ownerOf payload =
     (case ownerName payload of
        None \<Rightarrow> ownerLogin payload
      | Some n \<Rightarrow> if n = [] then ownerLogin payload else n)"

text \<open>The loop over the files of one commit: a file whose patch is absent or empty is
  skipped.\<close>

definition analyzeFiles :: "ComplianceViolation list \<Rightarrow> FileChange list \<Rightarrow> ComplianceViolation list" where
  "analyzeFiles allViolations files =
     foldl (\<lambda>acc f. case filePatch f of
                       None \<Rightarrow> acc
                     | Some p \<Rightarrow> if p = [] then acc
                                else acc @ analyzeFileForCompliance (fileName f) p)
           allViolations files"

text \<open>The loop over the commits of the push: an error thrown by the remote call is caught
  (and logged), and that commit contributes nothing.\<close>

definition collectViolations :: "getCommit \<Rightarrow> PushPayload \<Rightarrow> ComplianceViolation list" where
  "collectViolations getCommit payload =
     foldl (\<lambda>allViolations commit.
              case getCommit (ownerOf payload) (repoName payload) (commitId commit) of
                Inl e \<Rightarrow> allViolations
              | Inr None \<Rightarrow> allViolations
              | Inr (Some files) \<Rightarrow> analyzeFiles allViolations files)
           [] (commits payload)"

definition passedTitle :: jsstring where
  "passedTitle = [0x2705] @ js '' Compliance Check Passed - ''"

definition violationsTitle :: jsstring where
  "violationsTitle = [0x274C] @ js '' Compliance Violations Detected - ''"

text \<open>
  The handler of the \<open>push\<close> event. \<open>payload.commits[payload.commits.length - 1]\<close> is
  \<open>undefined\<close> when the push has no commits, and reading \<open>latestCommit.id\<close> then throws a
  TypeError; nothing catches it, nor an error thrown by \<open>formatComplianceReport\<close>.
\<close>

definition pushHandler :: "getCommit \<Rightarrow> PushPayload \<Rightarrow> outcome" where
  "pushHandler getCommit payload =
     (let branch = replaceFirst (js ''refs/heads/'') [] (ref payload)
      in if branch \<noteq> js ''main'' \<and> branch \<noteq> js ''master'' then Skipped
         else
           (let allViolations = collectViolations getCommit payload;
                report = generateComplianceReport allViolations
            in case commits payload of
                 [] \<Rightarrow> Rejected TypeError
               | _ # _ \<Rightarrow>
                   (let latestCommit = last (commits payload)
                    in case formatComplianceReport report (commitId latestCommit)
                              (commitMessage latestCommit) (authorName latestCommit) of
                         Inl e \<Rightarrow> Rejected e
                       | Inr reportBody \<Rightarrow>
                           (let issueTitle =
                                  (if passed report
                                   then passedTitle @ substring0 7 (commitId latestCommit)
                                   else violationsTitle @ substring0 7 (commitId latestCommit))
                            in IssueCreated
                                 \<lparr>owner = ownerOf payload, repo = repoName payload,
                                  title = issueTitle, body = reportBody,
                                  labels = (if passed report
                                            then [js ''compliance'', js ''passed'']
                                            else [js ''compliance'', js ''violation''])\<rparr>))))"

section \<open>The rule catalog\<close>

text \<open>
  The rule catalog as the specification tabulates it: eight rows in a fixed order, each a
  trigger pattern, an issue text and a severity. It is a second description of what
  \<open>analyzeFileForCompliance\<close> checks, to compare the function with.
\<close>

definition ruleCatalog :: "(regex \<times> jsstring \<times> Severity) list" where
  "ruleCatalog =
     [(passwordPattern, issuePassword, High),
      (apiKeyPattern, issueApiKey, High),
      (secretTokenPattern, issueSecretToken, High),
      (awsPattern, issueAws, High),
      (consolePattern, issueConsole, Low),
      (todoPattern, issueTodo, Low),
      (lintPattern, issueLint, Medium),
      (evalPattern, issueEval, High)]"

text \<open>What one row contributes for file \<open>f\<close> and text \<open>t\<close>.\<close>

definition emit ::
  "jsstring \<Rightarrow> jsstring \<Rightarrow> regex \<times> jsstring \<times> Severity \<Rightarrow> ComplianceViolation list" where
  "emit f t row =
     (if test (fst row) t
      then [\<lparr>file = f, issue = fst (snd row), severity = snd (snd row)\<rparr>] else [])"

text \<open>A violation used in the worked examples below.\<close>

definition demoViolation :: ComplianceViolation where
  "demoViolation = \<lparr>file = js ''config.js'', issue = issuePassword, severity = High\<rparr>"

text \<open>The issue texts of the rules whose pattern carries the \<open>i\<close> flag: rules 1 to 4
  and 6.\<close>

definition caseInsensitiveIssues :: "jsstring list" where
  "caseInsensitiveIssues = [issuePassword, issueApiKey, issueSecretToken, issueAws, issueTodo]"

text \<open>Two violations on different files, the second of which has a file name that is an
  array index, and one on a file named like a member of \<open>Object.prototype\<close>.\<close>

definition appViolation :: ComplianceViolation where
  "appViolation = \<lparr>file = js ''src/app.js'', issue = issueEval, severity = High\<rparr>"

definition numberedViolation :: ComplianceViolation where
  "numberedViolation = \<lparr>file = js ''7'', issue = issueTodo, severity = Low\<rparr>"

definition constructorViolation :: ComplianceViolation where
  "constructorViolation = \<lparr>file = js ''constructor'', issue = issueTodo, severity = Low\<rparr>"





text \<open>A push to \<open>main\<close> that carries no commits, as a forced update to an older commit
  or the deletion of the branch sends.\<close>

definition emptyPush :: PushPayload where
  "emptyPush =
     \<lparr>ref = js ''refs/heads/main'', commits = [],
      ownerName = None, ownerLogin = js ''octo'', repoName = js ''app''\<rparr>"

text \<open>The distinct elements of a list, each at the place of its first occurrence.\<close>

fun firstSeen :: "'a list \<Rightarrow> 'a list" where
  "firstSeen [] = []"
| "firstSeen (x # xs) = x # filter (\<lambda>y. y \<noteq> x) (firstSeen xs)"

text \<open>Grouping by first occurrence, as the specification describes it: one entry per
  distinct file path, in order of first occurrence, holding that file's violations in
  their original order.\<close>

definition groupedInOrder ::
  "ComplianceViolation list \<Rightarrow> (jsstring \<times> ComplianceViolation list) list" where
  "groupedInOrder vs =
     map (\<lambda>f. (f, filter (\<lambda>v. file v = f) vs)) (firstSeen (map file vs))"

text \<open>The object after the loop, started from any object with distinct keys.\<close>

definition grown ::
  "ComplianceViolation list jsobject \<Rightarrow> ComplianceViolation list \<Rightarrow>
   ComplianceViolation list jsobject" where
  "grown obj vs =
     map (\<lambda>(k, a). (k, a @ filter (\<lambda>v. file v = k) vs)) obj @
     map (\<lambda>f. (f, filter (\<lambda>v. file v = f) vs))
         (firstSeen (filter (\<lambda>f. f \<notin> fst ` set obj) (map file vs)))"

section \<open>Properties of analyzeFileForCompliance\<close>

lemma analyze_emit:
  "analyzeFileForCompliance f t = concat (map (emit f t) ruleCatalog)"
  by (simp add: analyzeFileForCompliance_def secretPatterns_def ruleCatalog_def emit_def Let_def)

lemma emit_filter:
  "concat (map (emit f t) rows) =
   map (\<lambda>row. \<lparr>file = f, issue = fst (snd row), severity = snd (snd row)\<rparr>)
       (filter (\<lambda>row. test (fst row) t) rows)"
  by (induction rows) (simp_all add: emit_def)

lemma catalog_issues_distinct: "distinct (map (\<lambda>row. fst (snd row)) ruleCatalog)"
  by code_simp

lemma catalog_length: "length ruleCatalog = 8"
  by (simp add: ruleCatalog_def)

text \<open>
  Claim C1. For every file name and diff text, \<open>analyzeFileForCompliance\<close> returns the rows
  of the catalog whose pattern matches the text, each turned into one violation, in the
  order of the catalog (the four credential rules, then console, TODO/FIXME, lint
  suppression, eval). However often a pattern matches, its rule contributes one violation:
  no issue text occurs twice, and the result has at most eight entries.
\<close>

theorem analyze_catalog_order:
  "analyzeFileForCompliance f t =
     map (\<lambda>row. \<lparr>file = f, issue = fst (snd row), severity = snd (snd row)\<rparr>)
         (filter (\<lambda>row. test (fst row) t) ruleCatalog) \<and>
   distinct (map issue (analyzeFileForCompliance f t)) \<and>
   length (analyzeFileForCompliance f t) \<le> 8"
proof -
  let ?fired = "filter (\<lambda>row. test (fst row) t) ruleCatalog"
  have eq: "analyzeFileForCompliance f t =
      map (\<lambda>row. \<lparr>file = f, issue = fst (snd row), severity = snd (snd row)\<rparr>) ?fired"
    by (simp only: analyze_emit emit_filter)
  have "map issue (analyzeFileForCompliance f t) = map (\<lambda>row. fst (snd row)) ?fired"
    by (simp add: eq comp_def)
  moreover have "distinct (map (\<lambda>row. fst (snd row)) ?fired)"
    using catalog_issues_distinct by (rule distinct_map_filter)
  ultimately have d: "distinct (map issue (analyzeFileForCompliance f t))"
    by simp
  have "length (analyzeFileForCompliance f t) = length ?fired"
    by (simp add: eq)
  also have "\<dots> \<le> length ruleCatalog"
    by (rule length_filter_le)
  finally have l: "length (analyzeFileForCompliance f t) \<le> 8"
    by (simp add: catalog_length)
  from eq d l show ?thesis by blast
qed

text \<open>
  Claim C9. The file name is only copied into the \<open>file\<close> field: for one diff text and two
  file names the results have the same length and the same issues and severities, entry by
  entry, and differ only in the \<open>file\<close> field, which is the given name throughout.
\<close>

theorem analyze_filename_only:
  "analyzeFileForCompliance f2 t = map (\<lambda>v. v\<lparr>file := f2\<rparr>) (analyzeFileForCompliance f1 t) \<and>
   map file (analyzeFileForCompliance f1 t) = replicate (length (analyzeFileForCompliance f1 t)) f1 \<and>
   length (analyzeFileForCompliance f1 t) = length (analyzeFileForCompliance f2 t) \<and>
   map issue (analyzeFileForCompliance f1 t) = map issue (analyzeFileForCompliance f2 t) \<and>
   map severity (analyzeFileForCompliance f1 t) = map severity (analyzeFileForCompliance f2 t)"
  by (simp add: analyze_emit emit_filter comp_def map_replicate_const)

section \<open>Properties of generateComplianceReport\<close>

text \<open>
  Claim C2. For every sequence of violations, the report that \<open>generateComplianceReport\<close>
  builds has \<open>passed\<close> true exactly when the sequence is empty, and its \<open>violations\<close> field
  is the sequence itself.
\<close>

theorem generate_passed_iff_empty:
  "passed (generateComplianceReport vs) = (vs = []) \<and>
   violations (generateComplianceReport vs) = vs"
  by (simp add: generateComplianceReport_def Let_def)

lemma severity_partition:
  "length (filter (\<lambda>v. severity v = High) vs) + length (filter (\<lambda>v. severity v = Medium) vs) +
   length (filter (\<lambda>v. severity v = Low) vs) = length vs"
proof (induction vs)
  case Nil
  show ?case by simp
next
  case (Cons v vs)
  then show ?case by (cases "severity v") simp_all
qed

lemma showNat_zero: "showNat 0 = js ''0''"
  by (simp add: showNat.simps js_def)

text \<open>
  Claim C7. The summary of the empty sequence is the success line. Otherwise it is the
  failure line: the total count, then the counts of high, medium and low violations in that
  order, each printed (a count of zero prints as \<open>0\<close>). The three counts add up to the
  length of the sequence.
\<close>

theorem summary_lines:
  "summary (generateComplianceReport []) = successLine \<and>
   (vs \<noteq> [] \<longrightarrow>
      summary (generateComplianceReport vs) =
        [0x274C] @ js '' Found '' @ showNat (length vs) @ js '' compliance violation(s):'' @ nl @
        js ''- '' @ showNat (length (filter (\<lambda>v. severity v = High) vs)) @ js '' high severity'' @ nl @
        js ''- '' @ showNat (length (filter (\<lambda>v. severity v = Medium) vs)) @ js '' medium severity'' @ nl @
        js ''- '' @ showNat (length (filter (\<lambda>v. severity v = Low) vs)) @ js '' low severity'') \<and>
   length (filter (\<lambda>v. severity v = High) vs) + length (filter (\<lambda>v. severity v = Medium) vs) +
     length (filter (\<lambda>v. severity v = Low) vs) = length vs \<and>
   showNat 0 = js ''0''"
  using severity_partition [of vs] showNat_zero
  by (simp add: generateComplianceReport_def Let_def)

theorem summary_lines_witness:
  "[demoViolation] \<noteq> [] \<and>
   summary (generateComplianceReport [demoViolation]) =
     [0x274C] @ js '' Found 1 compliance violation(s):'' @ nl @ js ''- 1 high severity'' @ nl @
     js ''- 0 medium severity'' @ nl @ js ''- 0 low severity''"
  using summary_lines [of "[demoViolation]"]
  by (simp add: demoViolation_def showNat.simps js_def)

section \<open>Matching under the i flag\<close>

text \<open>
  Canonicalisation only moves lower-case ASCII letters to upper case, so it changes neither
  what is white space nor what is a word character, and a match depends on the input only
  through its canonical form.
\<close>

lemma canon_isSpace: "isSpace (canon ic c) = isSpace c"
  by (auto simp: canon_def isSpace_def word_le_nat_alt word_unat_eq_iff unat_sub)

lemma canon_isWordChar: "isWordChar (canon ic c) = isWordChar c"
  by (auto simp: canon_def isWordChar_def word_le_nat_alt word_unat_eq_iff unat_sub)

lemma canon_nth:
  assumes "map (canon ic) s = map (canon ic) s'" and "i < length s"
  shows "canon ic (s ! i) = canon ic (s' ! i)"
proof -
  have "length s = length s'"
    using assms(1) by (rule map_eq_imp_length_eq)
  with assms(2) have "map (canon ic) s ! i = canon ic (s ! i)" "map (canon ic) s' ! i = canon ic (s' ! i)"
    by simp_all
  with assms(1) show ?thesis by simp
qed

lemma strAt_canon:
  "map (canon ic) s = map (canon ic) s' \<Longrightarrow> strAt ic cs s = strAt ic cs s'"
proof (induction cs arbitrary: s s')
  case Nil
  show ?case by simp
next
  case (Cons c cs)
  show ?case
  proof (cases s)
    case Nil
    with Cons.prems show ?thesis by simp
  next
    case sc: (Cons d ds)
    with Cons.prems obtain d' ds' where s': "s' = d' # ds'" by (cases s') auto
    with sc Cons.prems have "canon ic d = canon ic d'" "map (canon ic) ds = map (canon ic) ds'"
      by simp_all
    with Cons.IH [of ds ds'] sc s' show ?thesis by simp
  qed
qed

lemma wordAt_canon:
  assumes "map (canon ic) s = map (canon ic) s'"
  shows "wordAt s e = wordAt s' e"
proof -
  have len: "length s = length s'"
    using assms by (rule map_eq_imp_length_eq)
  show ?thesis
  proof (cases "e < 0 \<or> int (length s) \<le> e")
    case True
    with len show ?thesis by (simp add: wordAt_def)
  next
    case False
    then have "nat e < length s" by linarith
    from canon_nth [OF assms this]
    have "isWordChar (canon ic (s ! nat e)) = isWordChar (canon ic (s' ! nat e))" by simp
    with False len show ?thesis by (simp add: wordAt_def canon_isWordChar)
  qed
qed

lemma space_canon:
  assumes "map (canon ic) s = map (canon ic) s'" and "i < length s"
  shows "isSpace (s ! i) = isSpace (s' ! i)"
proof -
  from canon_nth [OF assms]
  have "isSpace (canon ic (s ! i)) = isSpace (canon ic (s' ! i))" by simp
  then show ?thesis by (simp add: canon_isSpace)
qed

lemma rmatch_canon:
  "map (canon ic) s = map (canon ic) s' \<Longrightarrow> rmatch ic r s i = rmatch ic r s' i"
proof (induction ic r s i rule: rmatch.induct)
  case (1 ic cs s i)
  have "length s = length s'" using 1 by (rule map_eq_imp_length_eq)
  moreover have "map (canon ic) (drop i s) = map (canon ic) (drop i s')"
    using 1 by (simp add: drop_map [symmetric])
  then have "strAt ic cs (drop i s) = strAt ic cs (drop i s')" by (rule strAt_canon)
  ultimately show ?case by simp
next
  case (2 ic cs s i)
  have "length s = length s'" using 2 by (rule map_eq_imp_length_eq)
  with canon_nth [OF 2] show ?case by auto
next
  case (3 ic cs s i)
  have "length s = length s'" using 3 by (rule map_eq_imp_length_eq)
  with canon_nth [OF 3] show ?case by auto
next
  case (4 ic s i)
  have "length s = length s'" using 4 by (rule map_eq_imp_length_eq)
  with space_canon [OF 4] show ?case by auto
next
  case (5 ic s i)
  with wordAt_canon [OF 5] show ?case by simp
next
  case (6 ic a b s i)
  then show ?case by (simp cong: map_cong)
next
  case (7 ic a b s i)
  then show ?case by simp
next
  case (8 ic a s i)
  then show ?case by simp
next
  case (9 ic a s i)
  define L where "L = filter (\<lambda>j. i < j \<and> j \<le> length s) (rmatch ic a s i)"
  have len: "length s = length s'" using "9.prems" by (rule map_eq_imp_length_eq)
  have a: "rmatch ic a s i = rmatch ic a s' i" using 9 by simp
  have L': "L = filter (\<lambda>j. i < j \<and> j \<le> length s') (rmatch ic a s' i)"
    by (simp only: L_def a len)
  have m: "map (rmatch ic (Star a) s) L = map (rmatch ic (Star a) s') L"
  proof (rule map_cong [OF refl])
    fix j assume "j \<in> set L"
    then show "rmatch ic (Star a) s j = rmatch ic (Star a) s' j"
      unfolding L_def using "9.IH"(2) "9.prems" by blast
  qed
  have "rmatch ic (Star a) s i = concat (map (rmatch ic (Star a) s) L) @ [i]"
    unfolding L_def by (rule rmatch.simps(9))
  also have "\<dots> = concat (map (rmatch ic (Star a) s') L) @ [i]"
    by (simp only: m)
  also have "\<dots> = rmatch ic (Star a) s' i"
    unfolding L' by (rule rmatch.simps(9) [symmetric])
  finally show ?case .
qed

lemma regexTest_canon:
  "map (canon ic) s = map (canon ic) s' \<Longrightarrow> regexTest ic r s = regexTest ic r s'"
  using map_eq_imp_length_eq [of "canon ic" s "canon ic" s']
  by (simp add: regexTest_def rmatch_canon [of ic s s'])

lemma case_sensitive_issues:
  "issueConsole \<notin> set caseInsensitiveIssues \<and> issueLint \<notin> set caseInsensitiveIssues \<and>
   issueEval \<notin> set caseInsensitiveIssues"
  by code_simp

lemma flagged_rows:
  assumes "map (canon True) t = map (canon True) t'"
    and "row \<in> set ruleCatalog" and "fst (snd row) \<in> set caseInsensitiveIssues"
  shows "test (fst row) t = test (fst row) t'"
proof -
  have ci: "regexTest True r t = regexTest True r t'" for r
    using assms(1) by (rule regexTest_canon)
  from assms(2) consider
      "row = (passwordPattern, issuePassword, High)" | "row = (apiKeyPattern, issueApiKey, High)"
    | "row = (secretTokenPattern, issueSecretToken, High)" | "row = (awsPattern, issueAws, High)"
    | "row = (consolePattern, issueConsole, Low)" | "row = (todoPattern, issueTodo, Low)"
    | "row = (lintPattern, issueLint, Medium)" | "row = (evalPattern, issueEval, High)"
    by (auto simp: ruleCatalog_def)
  then show ?thesis
  proof cases
    case 1 then show ?thesis by (simp add: passwordPattern_def ci)
  next
    case 2 then show ?thesis by (simp add: apiKeyPattern_def ci)
  next
    case 3 then show ?thesis by (simp add: secretTokenPattern_def ci)
  next
    case 4 then show ?thesis by (simp add: awsPattern_def ci)
  next
    case 5 with assms(3) case_sensitive_issues show ?thesis by simp
  next
    case 6 then show ?thesis by (simp add: todoPattern_def ci)
  next
    case 7 with assms(3) case_sensitive_issues show ?thesis by simp
  next
    case 8 with assms(3) case_sensitive_issues show ?thesis by simp
  qed
qed

lemma filter_emit_cong:
  "(\<And>row. row \<in> set rows \<Longrightarrow> fst (snd row) \<in> S \<Longrightarrow> test (fst row) t = test (fst row) t') \<Longrightarrow>
   filter (\<lambda>v. issue v \<in> S) (concat (map (emit f t) rows)) =
   filter (\<lambda>v. issue v \<in> S) (concat (map (emit f t') rows))"
  by (induction rows) (auto simp: emit_def)

text \<open>
  Claim C5, as the code has it. Rules 1 to 4 and 6 are matched case-insensitively: on two
  texts that are equal up to the case of ASCII letters, the violations reported for these
  five rules are the same. Rules 5, 7 and 8 (console, lint suppression, eval) are matched
  case-sensitively: each fires on its lower-case token and not on the upper-cased one.
\<close>

theorem flagged_rules_case_insensitive:
  "(map (canon True) t = map (canon True) t' \<longrightarrow>
      filter (\<lambda>v. issue v \<in> set caseInsensitiveIssues) (analyzeFileForCompliance f t) =
      filter (\<lambda>v. issue v \<in> set caseInsensitiveIssues) (analyzeFileForCompliance f t')) \<and>
   (test consolePattern (js ''console.log'') \<and> \<not> test consolePattern (js ''CONSOLE.LOG'')) \<and>
   (test lintPattern (js ''eslint-disable'') \<and> \<not> test lintPattern (js ''ESLINT-DISABLE'')) \<and>
   (test evalPattern (js ''eval('') \<and> \<not> test evalPattern (js ''EVAL(''))"
proof -
  have "filter (\<lambda>v. issue v \<in> set caseInsensitiveIssues) (analyzeFileForCompliance f t) =
        filter (\<lambda>v. issue v \<in> set caseInsensitiveIssues) (analyzeFileForCompliance f t')"
    if "map (canon True) t = map (canon True) t'"
    unfolding analyze_emit using flagged_rows [OF that] by (rule filter_emit_cong)
  moreover have "test consolePattern (js ''console.log'') \<and> \<not> test consolePattern (js ''CONSOLE.LOG'')"
    by code_simp
  moreover have "test lintPattern (js ''eslint-disable'') \<and> \<not> test lintPattern (js ''ESLINT-DISABLE'')"
    by code_simp
  moreover have "test evalPattern (js ''eval('') \<and> \<not> test evalPattern (js ''EVAL('')"
    by code_simp
  ultimately show ?thesis by blast
qed

theorem flagged_rules_case_insensitive_witness:
  "map (canon True) (js ''xxx'') = map (canon True) (js ''XXX'') \<and>
   filter (\<lambda>v. issue v \<in> set caseInsensitiveIssues) (analyzeFileForCompliance (js ''a.js'') (js ''xxx'')) =
   filter (\<lambda>v. issue v \<in> set caseInsensitiveIssues) (analyzeFileForCompliance (js ''a.js'') (js ''XXX'')) \<and>
   analyzeFileForCompliance (js ''a.js'') (js ''xxx'') =
     [\<lparr>file = js ''a.js'', issue = issueTodo, severity = Low\<rparr>]"
proof -
  have h: "map (canon True) (js ''xxx'') = map (canon True) (js ''XXX'')"
    by code_simp
  have v: "analyzeFileForCompliance (js ''a.js'') (js ''xxx'') =
     [\<lparr>file = js ''a.js'', issue = issueTodo, severity = Low\<rparr>]"
    by code_simp
  from flagged_rules_case_insensitive [of "js ''xxx''" "js ''XXX''" "js ''a.js''"] h v
  show ?thesis by blast
qed

text \<open>
  The claim as it was stated, that every rule is case-insensitive, fails for rule 5:
  \<open>console.log\<close> is reported and its upper-case variant is not.
\<close>

theorem case_insensitive_counterexample:
  "map (canon True) (js ''console.log'') = map (canon True) (js ''CONSOLE.LOG'') \<and>
   analyzeFileForCompliance (js ''app.js'') (js ''console.log'') =
     [\<lparr>file = js ''app.js'', issue = issueConsole, severity = Low\<rparr>] \<and>
   analyzeFileForCompliance (js ''app.js'') (js ''CONSOLE.LOG'') = []"
  by code_simp

section \<open>Properties of formatComplianceReport\<close>

text \<open>Appending in a loop is appending the concatenation: the document is its head followed
  by the text of each file section.\<close>

lemma foldl_lines:
  "foldl (\<lambda>md v. md @ g v) md vs = md @ concat (map g vs)"
  by (induction vs arbitrary: md) simp_all

lemma fileSection_append: "fileSection md e = md @ fileSection [] e"
  by (simp add: fileSection_def Let_def foldl_lines)

lemma foldl_fileSection:
  "foldl fileSection md es = md @ concat (map (fileSection []) es)"
proof (induction es arbitrary: md)
  case Nil
  show ?case by simp
next
  case (Cons e es)
  have "foldl fileSection md (e # es) = foldl fileSection (fileSection md e) es"
    by simp
  also have "\<dots> = fileSection md e @ concat (map (fileSection []) es)"
    by (rule Cons.IH)
  also have "\<dots> = md @ concat (map (fileSection []) (e # es))"
    by (subst fileSection_append) simp
  finally show ?case .
qed

lemma format_passed:
  "passed r \<Longrightarrow> formatComplianceReport r sha msg a = Inr (reportHead r sha msg a)"
  by (simp add: formatComplianceReport_def)

lemma format_failed:
  "\<not> passed r \<Longrightarrow>
   formatComplianceReport r sha msg a =
     (case groupLoop [] (violations r) of
        Inl e \<Rightarrow> Inl e
      | Inr g \<Rightarrow> Inr (reportHead r sha msg a @ violationsHeading @
                      concat (map (fileSection []) (objectEntries g)) @
                      nl @ js ''---'' @ nl @ nl @ closingAdvice))"
  by (simp add: formatComplianceReport_def Let_def foldl_fileSection split: sum.splits)

lemma heading_nonempty: "violationsHeading \<noteq> []"
  by (simp add: violationsHeading_def nl_def)

text \<open>
  Claim C6. Whenever \<open>formatComplianceReport\<close> returns a document, the document goes on
  after the summary with the "Violations" heading exactly when the report's \<open>passed\<close> flag
  is false. For a passed report it always returns, and the document ends with the summary;
  in particular the report of an empty violation sequence has no "Violations" section.
\<close>

theorem violations_section_iff_failed:
  "(formatComplianceReport r sha msg a = Inr doc \<longrightarrow>
      (prefix (reportHead r sha msg a @ violationsHeading) doc \<longleftrightarrow> \<not> passed r)) \<and>
   (passed r \<longrightarrow> formatComplianceReport r sha msg a = Inr (reportHead r sha msg a)) \<and>
   formatComplianceReport (generateComplianceReport []) sha msg a =
     Inr (reportHead (generateComplianceReport []) sha msg a)"
proof -
  have "prefix (reportHead r sha msg a @ violationsHeading) doc \<longleftrightarrow> \<not> passed r"
    if doc: "formatComplianceReport r sha msg a = Inr doc"
  proof (cases "passed r")
    case True
    with doc have "doc = reportHead r sha msg a"
      by (simp add: format_passed)
    with True heading_nonempty show ?thesis
      by (simp add: prefix_def)
  next
    case False
    with doc obtain rest where "doc = reportHead r sha msg a @ violationsHeading @ rest"
      by (auto simp: format_failed split: sum.splits)
    with False show ?thesis
      by (simp add: prefix_def)
  qed
  moreover have "passed (generateComplianceReport [])"
    by (simp add: generateComplianceReport_def Let_def)
  ultimately show ?thesis
    by (simp add: format_passed)
qed

theorem violations_section_iff_failed_witness:
  "formatComplianceReport (generateComplianceReport [appViolation]) (js ''2222222bbbb'') (js ''tidy'') (js ''Bo'') =
     Inr (reportHead (generateComplianceReport [appViolation]) (js ''2222222bbbb'') (js ''tidy'') (js ''Bo'') @
          violationsHeading @ fileSection [] (js ''src/app.js'', [appViolation]) @
          nl @ js ''---'' @ nl @ nl @ closingAdvice) \<and>
   prefix (reportHead (generateComplianceReport [appViolation]) (js ''2222222bbbb'') (js ''tidy'') (js ''Bo'') @
           violationsHeading)
     (reportHead (generateComplianceReport [appViolation]) (js ''2222222bbbb'') (js ''tidy'') (js ''Bo'') @
          violationsHeading @ fileSection [] (js ''src/app.js'', [appViolation]) @
          nl @ js ''---'' @ nl @ nl @ closingAdvice) \<and>
   \<not> passed (generateComplianceReport [appViolation]) \<and>
   passed (generateComplianceReport []) \<and>
   formatComplianceReport (generateComplianceReport []) (js ''2222222bbbb'') (js ''tidy'') (js ''Bo'') =
     Inr (reportHead (generateComplianceReport []) (js ''2222222bbbb'') (js ''tidy'') (js ''Bo''))"
proof -
  let ?r = "generateComplianceReport [appViolation]"
  let ?doc = "reportHead ?r (js ''2222222bbbb'') (js ''tidy'') (js ''Bo'') @
          violationsHeading @ fileSection [] (js ''src/app.js'', [appViolation]) @
          nl @ js ''---'' @ nl @ nl @ closingAdvice"
  have np: "\<not> passed ?r"
    by (simp add: generateComplianceReport_def Let_def)
  have g: "groupLoop [] [appViolation] = Inr [(js ''src/app.js'', [appViolation])]"
    by code_simp
  have e: "objectEntries [(js ''src/app.js'', [appViolation])] = [(js ''src/app.js'', [appViolation])]"
    by code_simp
  have v: "violations ?r = [appViolation]"
    by (simp add: generateComplianceReport_def Let_def)
  have f: "formatComplianceReport ?r (js ''2222222bbbb'') (js ''tidy'') (js ''Bo'') = Inr ?doc"
    by (simp only: format_failed [OF np] v g e sum.case list.map concat.simps append_Nil2)
  have p: "passed (generateComplianceReport [])"
    by (simp add: generateComplianceReport_def Let_def)
  from violations_section_iff_failed [of ?r "js ''2222222bbbb''" "js ''tidy''" "js ''Bo''" ?doc] f np
    violations_section_iff_failed [of "generateComplianceReport []" "js ''2222222bbbb''" "js ''tidy''" "js ''Bo''"] p
  show ?thesis by blast
qed

subsection \<open>Grouping by file\<close>

text \<open>
  For file paths that are neither named like a member of \<open>Object.prototype\<close> nor array
  indices, the grouping object behaves as an insertion-ordered dictionary: the loop ends
  normally, and the sections of the document are those of \<open>groupedInOrder\<close>.
\<close>

lemma firstSeen_set: "set (firstSeen xs) = set xs"
  by (induction xs) auto

lemma firstSeen_filter: "firstSeen (filter P xs) = filter P (firstSeen xs)"
proof (induction xs)
  case Nil
  show ?case by simp
next
  case (Cons x xs)
  show ?case
  proof (cases "P x")
    case True
    with Cons show ?thesis by (simp add: conj_commute)
  next
    case False
    then have "filter (\<lambda>y. y \<noteq> x \<and> P y) (firstSeen xs) = filter P (firstSeen xs)"
      by (intro filter_cong [OF refl]) auto
    with False Cons show ?thesis by simp
  qed
qed

lemma firstSeen_distinct: "distinct (firstSeen xs)"
  by (induction xs) (auto simp: firstSeen_set)

lemma getProp_own:
  "map_of obj k = Some arr \<Longrightarrow> getProp obj k = Own arr"
  by (simp add: getProp_def)

lemma getProp_fresh:
  assumes "k \<notin> fst ` set obj" and "k \<notin> set objectPrototypeKeys"
  shows "getProp obj k = Undefined"
proof -
  have "map_of obj k = None"
    using assms(1) by (simp add: map_of_eq_None_iff)
  with assms(2) show ?thesis
    by (simp add: getProp_def)
qed

lemma updateOwn_fresh: "k \<notin> fst ` set obj \<Longrightarrow> updateOwn obj k v = obj"
  unfolding updateOwn_def by (induction obj) auto

lemma groupStep_known:
  assumes "map_of obj (file v) = Some arr"
  shows "groupStep obj v = Inr (updateOwn obj (file v) (arr @ [v]))"
  using assms by (simp add: groupStep_def getProp_own)

lemma groupStep_fresh:
  assumes "file v \<notin> fst ` set obj" and "file v \<notin> set objectPrototypeKeys"
  shows "groupStep obj v = Inr (obj @ [(file v, [v])])"
proof -
  have "getProp obj (file v) = Undefined"
    using assms by (rule getProp_fresh)
  moreover have "map_of obj (file v) = None"
    using assms(1) by (simp add: map_of_eq_None_iff)
  then have "map_of (obj @ [(file v, [])]) (file v) = Some []"
    by (simp add: map_add_def)
  then have "getProp (obj @ [(file v, [])]) (file v) = Own []"
    by (rule getProp_own)
  moreover have "updateOwn (obj @ [(file v, [])]) (file v) [v] = obj @ [(file v, [v])]"
    using updateOwn_fresh [OF assms(1)] by (simp add: updateOwn_def)
  ultimately show ?thesis
    by (simp add: groupStep_def)
qed

lemma grown_known:
  assumes "distinct (map fst obj)" and "map_of obj (file v) = Some arr"
  shows "grown (updateOwn obj (file v) (arr @ [v])) vs = grown obj (v # vs)"
proof -
  have keys: "fst ` set (updateOwn obj (file v) (arr @ [v])) = fst ` set obj"
    by (force simp: updateOwn_def)
  have mem: "file v \<in> fst ` set obj"
    using map_of_SomeD [OF assms(2)] by force
  have one: "a = arr" if "(file v, a) \<in> set obj" for a
    using assms that by (simp add: map_of_is_SomeI [OF assms(1) that])
  have first: "map (\<lambda>(k, a). (k, a @ filter (\<lambda>w. file w = k) vs)) (updateOwn obj (file v) (arr @ [v])) =
               map (\<lambda>(k, a). (k, a @ filter (\<lambda>w. file w = k) (v # vs))) obj"
    unfolding updateOwn_def map_map
    by (rule map_cong [OF refl]) (auto dest: one)
  have second: "map (\<lambda>f. (f, filter (\<lambda>w. file w = f) vs))
         (firstSeen (filter (\<lambda>f. f \<notin> fst ` set obj) (map file vs))) =
        map (\<lambda>f. (f, filter (\<lambda>w. file w = f) (v # vs)))
         (firstSeen (filter (\<lambda>f. f \<notin> fst ` set obj) (map file (v # vs))))"
    using mem by (auto simp: firstSeen_set)
  show ?thesis
    unfolding grown_def keys first second ..
qed

lemma grown_fresh:
  assumes "file v \<notin> fst ` set obj"
  shows "grown (obj @ [(file v, [v])]) vs = grown obj (v # vs)"
proof -
  define X where "X = firstSeen (filter (\<lambda>f. f \<notin> fst ` set obj) (map file vs))"
  have first: "map (\<lambda>(k, a). (k, a @ filter (\<lambda>w. file w = k) vs)) obj =
               map (\<lambda>(k, a). (k, a @ filter (\<lambda>w. file w = k) (v # vs))) obj"
    using assms by (intro map_cong [OF refl]) force
  have ff: "filter (\<lambda>f. f \<notin> fst ` set (obj @ [(file v, [v])])) (map file vs) =
            filter (\<lambda>f. f \<noteq> file v) (filter (\<lambda>f. f \<notin> fst ` set obj) (map file vs))"
    by (auto intro: filter_cong)
  have l: "firstSeen (filter (\<lambda>f. f \<notin> fst ` set (obj @ [(file v, [v])])) (map file vs)) =
           filter (\<lambda>f. f \<noteq> file v) X"
    unfolding X_def ff firstSeen_filter ..
  have r: "firstSeen (filter (\<lambda>f. f \<notin> fst ` set obj) (map file (v # vs))) =
           file v # filter (\<lambda>f. f \<noteq> file v) X"
    unfolding X_def using assms by simp
  have second: "map (\<lambda>f. (f, filter (\<lambda>w. file w = f) vs)) (filter (\<lambda>f. f \<noteq> file v) X) =
        map (\<lambda>f. (f, filter (\<lambda>w. file w = f) (v # vs))) (filter (\<lambda>f. f \<noteq> file v) X)"
    by (intro map_cong [OF refl]) auto
  show ?thesis
    unfolding grown_def l r by (simp add: first second)
qed

lemma groupLoop_grown:
  assumes "distinct (map fst obj)"
    and "\<forall>v\<in>set vs. file v \<notin> set objectPrototypeKeys"
  shows "groupLoop obj vs = Inr (grown obj vs)"
  using assms
proof (induction vs arbitrary: obj)
  case Nil
  show ?case by (simp add: grown_def)
next
  case (Cons v vs)
  show ?case
  proof (cases "map_of obj (file v)")
    case None
    then have fresh: "file v \<notin> fst ` set obj"
      by (simp add: map_of_eq_None_iff)
    with Cons.prems have step: "groupStep obj v = Inr (obj @ [(file v, [v])])"
      by (simp add: groupStep_fresh)
    have "distinct (map fst (obj @ [(file v, [v])]))"
      using Cons.prems(1) fresh by simp
    with Cons.IH [of "obj @ [(file v, [v])]"] Cons.prems(2)
    have "groupLoop (obj @ [(file v, [v])]) vs = Inr (grown (obj @ [(file v, [v])]) vs)"
      by simp
    with step show ?thesis
      by (simp add: grown_fresh [OF fresh])
  next
    case (Some arr)
    then have step: "groupStep obj v = Inr (updateOwn obj (file v) (arr @ [v]))"
      by (rule groupStep_known)
    have "map fst (updateOwn obj (file v) (arr @ [v])) = map fst obj"
      by (induction obj) (auto simp: updateOwn_def)
    with Cons.prems(1) have "distinct (map fst (updateOwn obj (file v) (arr @ [v])))"
      by simp
    with Cons.IH [of "updateOwn obj (file v) (arr @ [v])"] Cons.prems(2)
    have "groupLoop (updateOwn obj (file v) (arr @ [v])) vs =
          Inr (grown (updateOwn obj (file v) (arr @ [v])) vs)"
      by simp
    with step show ?thesis
      by (simp add: grown_known [OF Cons.prems(1) Some])
  qed
qed

lemma groupLoop_in_order:
  assumes "\<forall>v\<in>set vs. file v \<notin> set objectPrototypeKeys"
  shows "groupLoop [] vs = Inr (groupedInOrder vs)"
  using groupLoop_grown [of "[]" vs] assms
  by (simp add: grown_def groupedInOrder_def)

lemma objectEntries_plain:
  assumes "\<forall>e\<in>set obj. arrayIndex (fst e) = None"
  shows "objectEntries obj = obj"
proof -
  have "filter (\<lambda>e. arrayIndex (fst e) \<noteq> None) obj = []"
    using assms by (simp add: filter_empty_conv)
  moreover have "filter (\<lambda>e. arrayIndex (fst e) = None) obj = obj"
    using assms by (simp add: filter_id_conv)
  ultimately show ?thesis
    by (simp add: objectEntries_def)
qed

lemma sections_in_order:
  assumes "\<not> passed r"
    and "\<forall>v\<in>set (violations r). file v \<notin> set objectPrototypeKeys \<and> arrayIndex (file v) = None"
  shows "formatComplianceReport r sha msg a =
     Inr (reportHead r sha msg a @ violationsHeading @
          concat (map (fileSection []) (groupedInOrder (violations r))) @
          nl @ js ''---'' @ nl @ nl @ closingAdvice)"
proof -
  have g: "groupLoop [] (violations r) = Inr (groupedInOrder (violations r))"
    using assms(2) by (simp add: groupLoop_in_order)
  have "\<forall>e\<in>set (groupedInOrder (violations r)). arrayIndex (fst e) = None"
    using assms(2) by (auto simp: groupedInOrder_def firstSeen_set)
  then have e: "objectEntries (groupedInOrder (violations r)) = groupedInOrder (violations r)"
    by (rule objectEntries_plain)
  show ?thesis
    by (simp only: format_failed [OF assms(1)] g e sum.case)
qed

lemma format_returns:
  assumes "\<forall>v\<in>set (violations r). file v \<notin> set objectPrototypeKeys"
  shows "\<exists>doc. formatComplianceReport r sha msg a = Inr doc"
proof (cases "passed r")
  case True
  then show ?thesis by (simp add: format_passed)
next
  case False
  with assms show ?thesis
    by (simp add: format_failed groupLoop_in_order)
qed

text \<open>The grouping object on two sample violation sequences.\<close>

lemma group_numbered:
  "groupLoop [] [appViolation, numberedViolation] =
     Inr [(js ''src/app.js'', [appViolation]), (js ''7'', [numberedViolation])]"
  by code_simp

lemma entries_numbered:
  "objectEntries [(js ''src/app.js'', [appViolation]), (js ''7'', [numberedViolation])] =
     [(js ''7'', [numberedViolation]), (js ''src/app.js'', [appViolation])]"
  by code_simp

lemma group_constructor: "groupLoop [] [constructorViolation] = Inl TypeError"
  by code_simp

text \<open>
  Claim C3 says that the file subsections follow the first occurrence of each file path in
  the violation sequence. The grouping object does not keep that order for a path that is
  an array index: with a violation on \<open>src/app.js\<close> followed by one on the file \<open>7\<close>, the
  document lists \<open>7\<close> first.
\<close>

theorem numbered_file_listed_first:
  "violations (generateComplianceReport [appViolation, numberedViolation]) =
     [appViolation, numberedViolation] \<and>
   formatComplianceReport (generateComplianceReport [appViolation, numberedViolation]) sha msg a =
     Inr (reportHead (generateComplianceReport [appViolation, numberedViolation]) sha msg a @
          violationsHeading @
          fileSection [] (js ''7'', [numberedViolation]) @
          fileSection [] (js ''src/app.js'', [appViolation]) @
          nl @ js ''---'' @ nl @ nl @ closingAdvice)"
proof -
  let ?r = "generateComplianceReport [appViolation, numberedViolation]"
  have np: "\<not> passed ?r"
    by (simp add: generateComplianceReport_def Let_def)
  have v: "violations ?r = [appViolation, numberedViolation]"
    by (simp add: generateComplianceReport_def Let_def)
  have "formatComplianceReport ?r sha msg a =
     Inr (reportHead ?r sha msg a @ violationsHeading @
          fileSection [] (js ''7'', [numberedViolation]) @
          fileSection [] (js ''src/app.js'', [appViolation]) @
          nl @ js ''---'' @ nl @ nl @ closingAdvice)"
    by (simp only: format_failed [OF np] v group_numbered entries_numbered sum.case list.map
          concat.simps append_Nil2 append_assoc)
  with v show ?thesis by blast
qed

section \<open>Properties of the push handler\<close>

text \<open>
  Claim C4 says that a push without commits gives a passing report and that nothing on the
  way to the report throws. The handler reads the id of the last commit of the push, which
  does not exist when the push has no commits: it is rejected with a TypeError, whatever the
  remote call would answer. \<open>formatComplianceReport\<close> itself throws on a violation in a file
  named \<open>constructor\<close>.
\<close>

theorem empty_push_rejected:
  "commits emptyPush = [] \<and>
   pushHandler gc emptyPush = Rejected TypeError \<and>
   formatComplianceReport (generateComplianceReport [constructorViolation]) sha msg a = Inl TypeError"
proof -
  let ?r = "generateComplianceReport [constructorViolation]"
  have np: "\<not> passed ?r"
    by (simp add: generateComplianceReport_def Let_def)
  have v: "violations ?r = [constructorViolation]"
    by (simp add: generateComplianceReport_def Let_def)
  have "formatComplianceReport ?r sha msg a = Inl TypeError"
    by (simp only: format_failed [OF np] v group_constructor sum.case)
  moreover have "pushHandler gc emptyPush = Rejected TypeError"
    by (simp add: pushHandler_def emptyPush_def js_def)
  moreover have "commits emptyPush = []"
    by (simp add: emptyPush_def)
  ultimately show ?thesis by blast
qed




text \<open>A push to \<open>main\<close> or \<open>master\<close> with at least one commit gets its issue, unless a
  violation sits in a file named like a member of \<open>Object.prototype\<close>.\<close>

lemma pushHandler_creates:
  assumes "replaceFirst (js ''refs/heads/'') [] (ref p) = js ''main'' \<or>
           replaceFirst (js ''refs/heads/'') [] (ref p) = js ''master''"
    and "commits p \<noteq> []"
    and "\<forall>v\<in>set (collectViolations gc p). file v \<notin> set objectPrototypeKeys"
  shows "\<exists>req. pushHandler gc p = IssueCreated req"
proof -
  let ?R = "generateComplianceReport (collectViolations gc p)"
  let ?c = "last (commits p)"
  have "violations ?R = collectViolations gc p"
    by (simp add: generateComplianceReport_def Let_def)
  with assms(3) obtain doc where
    "formatComplianceReport ?R (commitId ?c) (commitMessage ?c) (authorName ?c) = Inr doc"
    using format_returns [of ?R "commitId ?c" "commitMessage ?c" "authorName ?c"] by auto
  with assms(1,2) show ?thesis
    unfolding pushHandler_def Let_def by (cases "commits p") auto
qed







end
